theory Spec2Isabelle
  imports Main "HOL-Library.Word"
begin

unbundle bit_operations_syntax

section \<open>The CCSDS packet decoder (ccsds.go)\<close>

subsection \<open>Data model\<close>

type_synonym u8 = "8 word"
type_synonym u16 = "16 word"

text \<open>
  Go errors the decoder can see. \<open>EOF\<close> is \<^verbatim>\<open>io.EOF\<close>, \<open>ErrUnexpectedEOF\<close> is
  \<^verbatim>\<open>io.ErrUnexpectedEOF\<close>, and \<open>SourceError n\<close> stands for any other fault the
  underlying reader reports that wraps nothing (the number only tells such faults
  apart). \<open>Wrapped n e\<close> is an error that wraps the error \<open>e\<close>, as
  \<^verbatim>\<open>fmt.Errorf("...: %w", e)\<close> builds it: its \<^verbatim>\<open>Unwrap\<close> returns \<open>e\<close>, and it is a
  value of its own, so \<^verbatim>\<open>==\<close> tells it apart from \<open>e\<close>.
\<close>

datatype error = EOF | ErrUnexpectedEOF | SourceError nat | Wrapped nat error

text \<open>The struct \<^verbatim>\<open>Packet\<close>, field by field, with the widths of the Go types.\<close>

record Packet =
  Version :: u8
  Type :: u8
  SecondaryHdr :: bool
  APID :: u16
  SequenceFlags :: u8
  SequenceCount :: u16
  DataLen :: u16
  Data :: "u8 list"

text \<open>
  An \<^verbatim>\<open>io.Reader\<close> as the decoder observes it: the bytes it will still deliver
  (\<open>pending\<close>), and the error it reports once they are used up (\<open>final\<close>):
  \<open>EOF\<close> for a source that simply ends, any other error for one that fails.
  How the source cuts its bytes into partial reads is not visible through
  \<^verbatim>\<open>io.ReadFull\<close>, which is the only way the decoder reads.
\<close>

record Reader =
  pending :: "u8 list"
  final :: error

text \<open>\<^verbatim>\<open>bytes.NewReader(data)\<close>, the reader of the tests: the bytes, then \<^verbatim>\<open>io.EOF\<close>.\<close>

definition NewReader :: "u8 list \<Rightarrow> Reader" where
  "NewReader bs = \<lparr>pending = bs, final = EOF\<rparr>"

text \<open>The struct \<^verbatim>\<open>Decoder\<close>; its only field, \<^verbatim>\<open>r\<close> in the source, is \<open>dec_r\<close> here.\<close>

record Decoder =
  dec_r :: Reader

definition NewDecoder :: "Reader \<Rightarrow> Decoder" where
  "NewDecoder rd = \<lparr>dec_r = rd\<rparr>"

subsection \<open>Library functions the decoder calls\<close>

text \<open>
  \<^verbatim>\<open>io.ReadFull(r, buf)\<close> with \<open>n = len(buf)\<close>, after the Go standard library:
  it reads until \<open>n\<close> bytes are in the buffer or the reader reports an error.
  With \<open>n\<close> bytes read the error is nil; with none read the reader's error is
  returned as it is (\<^verbatim>\<open>io.EOF\<close> for a source that ended); with some but fewer
  than \<open>n\<close> read, \<^verbatim>\<open>io.EOF\<close> becomes \<^verbatim>\<open>io.ErrUnexpectedEOF\<close> and any other
  error is returned as it is. The result is the bytes read, the error (\<open>None\<close> for nil)
  and the reader afterwards.
\<close>

definition ReadFull :: "Reader \<Rightarrow> nat \<Rightarrow> (u8 list \<times> error option) \<times> Reader" where
  "ReadFull rd n =
     (if n \<le> length (pending rd)
      then ((take n (pending rd), None), rd\<lparr>pending := drop n (pending rd)\<rparr>)
      else if pending rd = []
      then (([], Some (final rd)), rd)
      else ((pending rd, Some (if final rd = EOF then ErrUnexpectedEOF else final rd)),
            rd\<lparr>pending := []\<rparr>))"

text \<open>
  \<^verbatim>\<open>binary.BigEndian.Uint16(b)\<close> is \<^verbatim>\<open>uint16(b[1]) | uint16(b[0])<<8\<close>. Go panics on a
  slice shorter than two bytes; both calls in the decoder pass a two-byte slice literal,
  so the second equation is never reached from \<open>ReadPacket\<close>.
\<close>

fun BigEndian_Uint16 :: "u8 list \<Rightarrow> u16" where
  "BigEndian_Uint16 (b0 # b1 # bs) = ucast b1 OR push_bit 8 (ucast b0)"
| "BigEndian_Uint16 _ = 0"

text \<open>
  \<^verbatim>\<open>errors.Is(err, io.EOF)\<close>: true when \<open>err\<close> is \<^verbatim>\<open>io.EOF\<close>, and otherwise the
  answer for the error that \<open>err\<close> wraps, if it wraps one. \<^verbatim>\<open>io.ErrUnexpectedEOF\<close>
  wraps nothing.
\<close>

fun errors_Is_EOF :: "error \<Rightarrow> bool" where
  "errors_Is_EOF EOF = True"
| "errors_Is_EOF ErrUnexpectedEOF = False"
| "errors_Is_EOF (SourceError n) = False"
| "errors_Is_EOF (Wrapped n e) = errors_Is_EOF e"

subsection \<open>ReadPacket\<close>

text \<open>
  \<^verbatim>\<open>func (d *Decoder) ReadPacket() (*Packet, error)\<close>. The result is \<open>Inl err\<close> for
  \<^verbatim>\<open>(nil, err)\<close> and \<open>Inr pkt\<close> for \<^verbatim>\<open>(pkt, nil)\<close>, together with the decoder
  after the reads. \<open>header ! i\<close> is only used on the six bytes a successful
  \<open>ReadFull\<close> returned.
\<close>

definition ReadPacket :: "Decoder \<Rightarrow> (error + Packet) \<times> Decoder" where
  "ReadPacket d =
     (case ReadFull (dec_r d) 6 of
        ((header, Some err), rd1) \<Rightarrow>
          (if err = EOF then (Inl EOF, d\<lparr>dec_r := rd1\<rparr>)
           else (Inl err, d\<lparr>dec_r := rd1\<rparr>))
      | ((header, None), rd1) \<Rightarrow>
          (let pkt = \<lparr>Version = drop_bit 5 (header ! 0 AND 0xE0),
                      Type = drop_bit 4 (header ! 0 AND 0x10),
                      SecondaryHdr = (header ! 0 AND 0x08 \<noteq> 0),
                      APID = push_bit 8 (ucast (header ! 0 AND 0x07)) OR ucast (header ! 1),
                      SequenceFlags = drop_bit 6 (header ! 2 AND 0xC0),
                      SequenceCount = BigEndian_Uint16 [header ! 2 AND 0x3F, header ! 3],
                      DataLen = BigEndian_Uint16 [header ! 4, header ! 5] + 1,
                      Data = []\<rparr>
           in if DataLen pkt > 0
              then (case ReadFull rd1 (unat (DataLen pkt)) of
                      ((buf, Some err), rd2) \<Rightarrow> (Inl err, d\<lparr>dec_r := rd2\<rparr>)
                    | ((buf, None), rd2) \<Rightarrow> (Inr (pkt\<lparr>Data := buf\<rparr>), d\<lparr>dec_r := rd2\<rparr>))
              else (Inr (pkt\<lparr>Data := []\<rparr>), d\<lparr>dec_r := rd1\<rparr>)))"

subsection \<open>ReadAllPackets\<close>

text \<open>
  The \<^verbatim>\<open>for\<close> loop of \<^verbatim>\<open>ReadAllPackets\<close>, with the slice \<^verbatim>\<open>packets\<close> as accumulator.
  A successful \<open>ReadPacket\<close> takes at least the six header bytes from the reader, so
  the loop ends on every reader.
\<close>

function ReadAllPackets_loop ::
  "Packet list \<Rightarrow> Decoder \<Rightarrow> (Packet list \<times> error option) \<times> Decoder" where
  "ReadAllPackets_loop packets d =
     (case ReadPacket d of
        (Inl err, d') \<Rightarrow>
          (if errors_Is_EOF err then ((packets, None), d') else ((packets, Some err), d'))
      | (Inr pkt, d') \<Rightarrow> ReadAllPackets_loop (packets @ [pkt]) d')"
  by pat_completeness auto
termination
proof (relation "measure (\<lambda>(packets, d). length (pending (dec_r d)))")
  show "wf (measure (\<lambda>(packets, d). length (pending (dec_r d))))"
    by simp
next
  fix packets :: "Packet list" and d d' :: Decoder and x :: "error + Packet" and pkt :: Packet
  assume "(x, d') = ReadPacket d" and "x = Inr pkt"
  then have rp: "ReadPacket d = (Inr pkt, d')"
    by simp
  have "length (pending (dec_r d')) < length (pending (dec_r d))"
    using rp
    by (auto simp: ReadPacket_def ReadFull_def Let_def split: if_splits)
  then show "((packets @ [pkt], d'), (packets, d))
      \<in> measure (\<lambda>(packets, d). length (pending (dec_r d)))"
    by simp
qed

definition ReadAllPackets :: "Decoder \<Rightarrow> (Packet list \<times> error option) \<times> Decoder" where
  "ReadAllPackets d = ReadAllPackets_loop [] d"

subsection \<open>Callers and test data\<close>

text \<open>
  A caller that invokes \<open>ReadPacket\<close> \<open>n\<close> times in a row on the same decoder: the
  results in call order, and the decoder after the last call.
\<close>

fun ReadPacket_n :: "nat \<Rightarrow> Decoder \<Rightarrow> (error + Packet) list \<times> Decoder" where
  "ReadPacket_n 0 d = ([], d)"
| "ReadPacket_n (Suc n) d =
     (case ReadPacket d of
        (res, d') \<Rightarrow> (case ReadPacket_n n d' of (ress, d'') \<Rightarrow> (res # ress, d'')))"

text \<open>
  The input and the expected packet of \<^verbatim>\<open>TestDecoder_ReadPacket\<close>
  (hex \<^verbatim>\<open>08013FFF0002DEADBE\<close>).
\<close>

definition fixture_bytes :: "u8 list" where
  "fixture_bytes = [0x08, 0x01, 0x3F, 0xFF, 0x00, 0x02, 0xDE, 0xAD, 0xBE]"

definition fixture_packet :: Packet where
  "fixture_packet = \<lparr>Version = 0, Type = 0, SecondaryHdr = True, APID = 1,
     SequenceFlags = 0, SequenceCount = 0x3FFF, DataLen = 3, Data = [0xDE, 0xAD, 0xBE]\<rparr>"

text \<open>
  The wire format of one packet as the specification gives it (section 6): the six-byte
  primary header, then as many payload bytes as the 16-bit big-endian length field in
  bytes 4 and 5 says, plus one. The count is a natural number, so the longest packet
  has 65536 payload bytes.
\<close>

definition well_formed_packet :: "u8 list \<Rightarrow> bool" where
  "well_formed_packet bs =
     (6 \<le> length bs \<and> length bs = 6 + (unat (BigEndian_Uint16 [bs ! 4, bs ! 5]) + 1))"

section \<open>Properties\<close>

subsection \<open>Bit-level facts\<close>

lemma and_7_take_bit: "(b::'a::len word) AND 7 = take_bit 3 b"
  by (simp add: take_bit_eq_mask mask_eq_exp_minus_1)

lemma and_3F_take_bit: "(b::'a::len word) AND 0x3F = take_bit 6 b"
  by (simp add: take_bit_eq_mask mask_eq_exp_minus_1)

lemma bit3_test: "((b::u8) AND 0x08 \<noteq> 0) = (drop_bit 3 b AND 1 \<noteq> 0)"
proof -
  have "b AND 2 ^ 3 = 0 \<longleftrightarrow> \<not> bit b 3"
    by (rule and_exp_eq_0_iff_not_bit)
  moreover have "drop_bit 3 b AND 1 = 0 \<longleftrightarrow> \<not> bit b 3"
    by (simp add: and_one_eq bit_iff_odd_drop_bit even_iff_mod_2_eq_zero)
  ultimately show ?thesis by simp
qed

lemma u16_take_bit_less: "n < 16 \<Longrightarrow> take_bit n (w::u16) = w \<Longrightarrow> w < 2 ^ n"
  using and_mask_less_size [of n w] by (simp add: take_bit_eq_mask word_size)

lemma apid_less: "push_bit 8 (ucast ((b0::u8) AND 0x07)) OR (ucast (b1::u8) :: u16) < 2 ^ 11"
proof -
  have "take_bit 11 (push_bit 8 (ucast (take_bit 3 b0)) OR (ucast b1 :: u16))
      = push_bit 8 (ucast (take_bit 3 b0)) OR ucast b1"
    by (rule bit_word_eqI) (auto simp: bit_simps dest: bit_imp_le_length)
  then show ?thesis
    unfolding and_7_take_bit by (intro u16_take_bit_less) simp_all
qed

lemma seqcount_less: "BigEndian_Uint16 [(b2::u8) AND 0x3F, b3] < 2 ^ 14"
proof -
  have "take_bit 14 (ucast b3 OR push_bit 8 (ucast (take_bit 6 b2)) :: u16)
      = ucast b3 OR push_bit 8 (ucast (take_bit 6 b2))"
    by (rule bit_word_eqI) (auto simp: bit_simps dest: bit_imp_le_length)
  then show ?thesis
    unfolding and_3F_take_bit BigEndian_Uint16.simps by (intro u16_take_bit_less) simp_all
qed

lemma unat_apid_le:
  "unat (push_bit 8 (ucast ((b0::u8) AND 0x07)) OR (ucast (b1::u8) :: u16)) \<le> 2047"
  using apid_less [of b0 b1] by (simp add: word_less_nat_alt)

lemma unat_seqcount_le: "unat (BigEndian_Uint16 [(b2::u8) AND 0x3F, b3]) \<le> 16383"
  using seqcount_less [of b2 b3] by (simp add: word_less_nat_alt)

lemma unat_and_le: "unat ((x::u8) AND n) \<le> unat n"
  using word_and_le1 [of x n] by (simp add: word_le_nat_alt)

subsection \<open>What one call of ReadPacket does\<close>

text \<open>Fewer than six bytes left: the header read fails and uses up what was left.\<close>

lemma ReadPacket_short:
  assumes "length (pending (dec_r d)) < 6"
  shows "ReadPacket d =
    (Inl (if pending (dec_r d) = [] then final (dec_r d)
          else if final (dec_r d) = EOF then ErrUnexpectedEOF else final (dec_r d)),
     d\<lparr>dec_r := (dec_r d)\<lparr>pending := []\<rparr>\<rparr>)"
  using assms by (simp add: ReadPacket_def ReadFull_def)

lemma ReadFull_header:
  "pending rd = b0 # b1 # b2 # b3 # b4 # b5 # rest \<Longrightarrow>
   ReadFull rd 6 = (([b0, b1, b2, b3, b4, b5], None), rd\<lparr>pending := rest\<rparr>)"
  by (simp add: ReadFull_def)

text \<open>At least six bytes left: the header is decoded and the payload read is attempted.\<close>

lemma ReadPacket_header:
  assumes "pending (dec_r d) = b0 # b1 # b2 # b3 # b4 # b5 # rest"
  shows "ReadPacket d =
    (let pkt = \<lparr>Version = drop_bit 5 (b0 AND 0xE0),
                Type = drop_bit 4 (b0 AND 0x10),
                SecondaryHdr = (b0 AND 0x08 \<noteq> 0),
                APID = push_bit 8 (ucast (b0 AND 0x07)) OR ucast b1,
                SequenceFlags = drop_bit 6 (b2 AND 0xC0),
                SequenceCount = BigEndian_Uint16 [b2 AND 0x3F, b3],
                DataLen = BigEndian_Uint16 [b4, b5] + 1,
                Data = []\<rparr>;
         rd1 = (dec_r d)\<lparr>pending := rest\<rparr>
     in if DataLen pkt > 0
        then (case ReadFull rd1 (unat (DataLen pkt)) of
                ((buf, Some err), rd2) \<Rightarrow> (Inl err, d\<lparr>dec_r := rd2\<rparr>)
              | ((buf, None), rd2) \<Rightarrow> (Inr (pkt\<lparr>Data := buf\<rparr>), d\<lparr>dec_r := rd2\<rparr>))
        else (Inr pkt, d\<lparr>dec_r := rd1\<rparr>))"
  unfolding ReadPacket_def ReadFull_header [OF assms]
  by (simp add: Let_def)

lemma ReadPacket_Inr_pending:
  assumes "ReadPacket d = (Inr pkt, d')"
  obtains b0 b1 b2 b3 b4 b5 rest
  where "pending (dec_r d) = b0 # b1 # b2 # b3 # b4 # b5 # rest"
proof -
  have "\<not> length (pending (dec_r d)) < 6"
    using assms ReadPacket_short [of d] by auto
  then have "6 \<le> length (pending (dec_r d))" by simp
  then obtain b0 b1 b2 b3 b4 b5 rest
    where "pending (dec_r d) = b0 # b1 # b2 # b3 # b4 # b5 # rest"
    by (auto simp: numeral_eq_Suc Suc_le_length_iff)
  then show thesis by (rule that)
qed

subsection \<open>Header fields\<close>

text \<open>
  A packet that \<open>ReadPacket\<close> returns carries the mask-and-shift values of the six
  header bytes, in the form the specification writes them, and they are in range.
\<close>

lemma ReadPacket_result_fields:
  assumes "pending (dec_r d) = b0 # b1 # b2 # b3 # b4 # b5 # rest"
    and "ReadPacket d = (Inr pkt, d')"
  shows "Version pkt = drop_bit 5 b0 AND 7 \<and>
         Type pkt = drop_bit 4 b0 AND 1 \<and>
         SecondaryHdr pkt = (drop_bit 3 b0 AND 1 \<noteq> 0) \<and>
         APID pkt = push_bit 8 (ucast (b0 AND 7)) OR ucast b1 \<and>
         SequenceFlags pkt = drop_bit 6 b2 AND 3 \<and>
         SequenceCount pkt = push_bit 8 (ucast (b2 AND 0x3F)) OR ucast b3 \<and>
         unat (Version pkt) \<le> 7 \<and> unat (Type pkt) \<le> 1 \<and> unat (APID pkt) \<le> 2047 \<and>
         unat (SequenceFlags pkt) \<le> 3 \<and> unat (SequenceCount pkt) \<le> 16383"
proof -
  have fields: "Version pkt = drop_bit 5 (b0 AND 0xE0)" "Type pkt = drop_bit 4 (b0 AND 0x10)"
    "SecondaryHdr pkt = (b0 AND 0x08 \<noteq> 0)"
    "APID pkt = push_bit 8 (ucast (b0 AND 0x07)) OR ucast b1"
    "SequenceFlags pkt = drop_bit 6 (b2 AND 0xC0)"
    "SequenceCount pkt = BigEndian_Uint16 [b2 AND 0x3F, b3]"
    using assms(2) unfolding ReadPacket_header [OF assms(1)]
    by (auto simp: Let_def split: if_splits prod.splits option.splits)
  have v: "Version pkt = drop_bit 5 b0 AND 7" and t: "Type pkt = drop_bit 4 b0 AND 1"
    and f: "SequenceFlags pkt = drop_bit 6 b2 AND 3"
    using fields by simp_all
  have s: "SecondaryHdr pkt = (drop_bit 3 b0 AND 1 \<noteq> 0)"
    using fields(3) bit3_test [of b0] by simp
  have c: "SequenceCount pkt = push_bit 8 (ucast (b2 AND 0x3F)) OR ucast b3"
    using fields(6) by (simp add: ac_simps)
  have "unat (Version pkt) \<le> 7" "unat (Type pkt) \<le> 1" "unat (SequenceFlags pkt) \<le> 3"
    using unat_and_le [of "drop_bit 5 b0" 7] unat_and_le [of "drop_bit 4 b0" 1]
      unat_and_le [of "drop_bit 6 b2" 3]
    by (simp_all add: v t f)
  moreover have "unat (APID pkt) \<le> 2047"
    using unat_apid_le [of b0 b1] fields(4) by simp
  moreover have "unat (SequenceCount pkt) \<le> 16383"
    using unat_seqcount_le [of b2 b3] fields(6) by simp
  ultimately show ?thesis
    using v t s fields(4) f c by simp
qed

text \<open>
  With the header and the payload in the stream, \<open>ReadPacket\<close> returns a packet. The
  payload the code reads has \<open>DataLen\<close> bytes, the length field plus one in
  \<^verbatim>\<open>uint16\<close>.
\<close>

lemma ReadPacket_succeeds:
  assumes "pending (dec_r d) = b0 # b1 # b2 # b3 # b4 # b5 # rest"
    and "unat (BigEndian_Uint16 [b4, b5] + 1) \<le> length rest"
  shows "\<exists>pkt d'. ReadPacket d = (Inr pkt, d')"
  using assms(2) unfolding ReadPacket_header [OF assms(1)]
  by (simp add: Let_def ReadFull_def)

text \<open>
  C4: for every six header bytes \<open>b0 \<dots> b5\<close> at the head of a stream that also holds
  the payload, \<open>ReadPacket\<close> returns a packet, and its fields are the mask-and-shift
  values of the specification: version \<open>(b0 >> 5) & 7\<close>, type \<open>(b0 >> 4) & 1\<close>,
  secondary header flag \<open>(b0 >> 3) & 1 \<noteq> 0\<close>, apid \<open>((b0 & 7) << 8) | b1\<close>, sequence
  flags \<open>(b2 >> 6) & 3\<close>, sequence count \<open>((b2 & 0x3F) << 8) | b3\<close>; and so version is
  at most 7, type at most 1, apid at most 2047, sequence flags at most 3 and sequence
  count at most 16383.
\<close>

theorem ReadPacket_header_fields:
  assumes "pending (dec_r d) = b0 # b1 # b2 # b3 # b4 # b5 # rest"
    and "unat (BigEndian_Uint16 [b4, b5] + 1) \<le> length rest"
  shows "\<exists>pkt d'. ReadPacket d = (Inr pkt, d') \<and>
         Version pkt = drop_bit 5 b0 AND 7 \<and>
         Type pkt = drop_bit 4 b0 AND 1 \<and>
         SecondaryHdr pkt = (drop_bit 3 b0 AND 1 \<noteq> 0) \<and>
         APID pkt = push_bit 8 (ucast (b0 AND 7)) OR ucast b1 \<and>
         SequenceFlags pkt = drop_bit 6 b2 AND 3 \<and>
         SequenceCount pkt = push_bit 8 (ucast (b2 AND 0x3F)) OR ucast b3 \<and>
         unat (Version pkt) \<le> 7 \<and> unat (Type pkt) \<le> 1 \<and> unat (APID pkt) \<le> 2047 \<and>
         unat (SequenceFlags pkt) \<le> 3 \<and> unat (SequenceCount pkt) \<le> 16383"
proof -
  from ReadPacket_succeeds [OF assms] obtain pkt d' where rp: "ReadPacket d = (Inr pkt, d')"
    by blast
  from ReadPacket_result_fields [OF assms(1) rp] rp show ?thesis
    by blast
qed

theorem ReadPacket_header_fields_witness:
  "pending (dec_r (NewDecoder (NewReader [0xFF, 0xFF, 0xFF, 0xFF, 0x00, 0x00, 0x7F]))) =
     0xFF # 0xFF # 0xFF # 0xFF # 0x00 # 0x00 # [0x7F] \<and>
   unat (BigEndian_Uint16 [0x00, 0x00] + 1) \<le> length [0x7F :: u8] \<and>
   (\<exists>pkt d'. ReadPacket (NewDecoder (NewReader [0xFF, 0xFF, 0xFF, 0xFF, 0x00, 0x00, 0x7F])) =
        (Inr pkt, d') \<and>
      Version pkt = 7 \<and> Type pkt = 1 \<and> SecondaryHdr pkt \<and> APID pkt = 2047 \<and>
      SequenceFlags pkt = 3 \<and> SequenceCount pkt = 16383)"
proof -
  let ?d = "NewDecoder (NewReader [0xFF, 0xFF, 0xFF, 0xFF, 0x00, 0x00, 0x7F])"
  have h1: "pending (dec_r ?d) = 0xFF # 0xFF # 0xFF # 0xFF # 0x00 # 0x00 # [0x7F]"
    by (simp add: NewDecoder_def NewReader_def)
  have h2: "unat (BigEndian_Uint16 [0x00, 0x00] + 1) \<le> length [0x7F :: u8]"
    by simp
  from ReadPacket_header_fields [OF h1 h2]
  obtain pkt d' where "ReadPacket ?d = (Inr pkt, d')"
    and "Version pkt = drop_bit 5 (0xFF::u8) AND 7"
    and "Type pkt = drop_bit 4 (0xFF::u8) AND 1"
    and "SecondaryHdr pkt = (drop_bit 3 (0xFF::u8) AND 1 \<noteq> 0)"
    and "APID pkt = push_bit 8 (ucast ((0xFF::u8) AND 7)) OR ucast (0xFF::u8)"
    and "SequenceFlags pkt = drop_bit 6 (0xFF::u8) AND 3"
    and "SequenceCount pkt = push_bit 8 (ucast ((0xFF::u8) AND 0x3F)) OR ucast (0xFF::u8)"
    by blast
  then have "ReadPacket ?d = (Inr pkt, d') \<and>
      Version pkt = 7 \<and> Type pkt = 1 \<and> SecondaryHdr pkt \<and> APID pkt = 2047 \<and>
      SequenceFlags pkt = 3 \<and> SequenceCount pkt = 16383"
    by simp
  with h1 h2 show ?thesis
    by blast
qed

subsection \<open>The test fixture\<close>

text \<open>
  C5: on the bytes \<^verbatim>\<open>08 01 3F FF 00 02 DE AD BE\<close>, \<open>ReadPacket\<close> returns exactly the
  packet with version 0, type 0, secondary header present, apid 1, sequence flags 0,
  sequence count 0x3FFF, data length 3 and data \<^verbatim>\<open>DE AD BE\<close>; on these bytes twice
  in a row, \<open>ReadAllPackets\<close> returns exactly two packets, each with those values,
  and no error.
\<close>

theorem fixture_decodes:
  "ReadPacket (NewDecoder (NewReader fixture_bytes)) =
     (Inr \<lparr>Version = 0, Type = 0, SecondaryHdr = True, APID = 1, SequenceFlags = 0,
           SequenceCount = 0x3FFF, DataLen = 3, Data = [0xDE, 0xAD, 0xBE]\<rparr>,
      NewDecoder (NewReader [])) \<and>
   ReadAllPackets (NewDecoder (NewReader (fixture_bytes @ fixture_bytes))) =
     (([\<lparr>Version = 0, Type = 0, SecondaryHdr = True, APID = 1, SequenceFlags = 0,
          SequenceCount = 0x3FFF, DataLen = 3, Data = [0xDE, 0xAD, 0xBE]\<rparr>,
        \<lparr>Version = 0, Type = 0, SecondaryHdr = True, APID = 1, SequenceFlags = 0,
          SequenceCount = 0x3FFF, DataLen = 3, Data = [0xDE, 0xAD, 0xBE]\<rparr>], None),
      NewDecoder (NewReader []))"
proof (rule conjI)
  show "ReadPacket (NewDecoder (NewReader fixture_bytes)) =
     (Inr \<lparr>Version = 0, Type = 0, SecondaryHdr = True, APID = 1, SequenceFlags = 0,
           SequenceCount = 0x3FFF, DataLen = 3, Data = [0xDE, 0xAD, 0xBE]\<rparr>,
      NewDecoder (NewReader []))"
    by (simp add: ReadPacket_def ReadFull_def NewDecoder_def NewReader_def Let_def
        fixture_bytes_def)
next
  show "ReadAllPackets (NewDecoder (NewReader (fixture_bytes @ fixture_bytes))) =
     (([\<lparr>Version = 0, Type = 0, SecondaryHdr = True, APID = 1, SequenceFlags = 0,
          SequenceCount = 0x3FFF, DataLen = 3, Data = [0xDE, 0xAD, 0xBE]\<rparr>,
        \<lparr>Version = 0, Type = 0, SecondaryHdr = True, APID = 1, SequenceFlags = 0,
          SequenceCount = 0x3FFF, DataLen = 3, Data = [0xDE, 0xAD, 0xBE]\<rparr>], None),
      NewDecoder (NewReader []))"
    by code_simp
qed

subsection \<open>End of stream and truncated headers\<close>

text \<open>
  C6: with no byte left when the header read starts, on a source that ends cleanly,
  \<open>ReadPacket\<close> returns the end-of-stream value \<^verbatim>\<open>io.EOF\<close>: not another error, and
  not a packet. The decoder is unchanged.
\<close>

theorem ReadPacket_empty_EOF:
  assumes "pending (dec_r d) = []" and "final (dec_r d) = EOF"
  shows "ReadPacket d = (Inl EOF, d)"
  using assms by (simp add: ReadPacket_def ReadFull_def)

theorem ReadPacket_empty_EOF_witness:
  "ReadPacket (NewDecoder (NewReader [])) = (Inl EOF, NewDecoder (NewReader []))"
  using ReadPacket_empty_EOF [of "NewDecoder (NewReader [])"]
  by (simp add: NewDecoder_def NewReader_def)

text \<open>
  C7: on an input of exactly five bytes, \<open>ReadPacket\<close> returns
  \<^verbatim>\<open>io.ErrUnexpectedEOF\<close>, the truncated-header error, which is not the end-of-stream
  value \<^verbatim>\<open>io.EOF\<close>.
\<close>

theorem ReadPacket_five_bytes:
  assumes "length bs = 5"
  shows "ReadPacket (NewDecoder (NewReader bs)) =
           (Inl ErrUnexpectedEOF, NewDecoder (NewReader [])) \<and>
         ErrUnexpectedEOF \<noteq> EOF"
  using assms by (auto simp: ReadPacket_def ReadFull_def NewDecoder_def NewReader_def)

theorem ReadPacket_five_bytes_witness:
  "ReadPacket (NewDecoder (NewReader [0x08, 0x01, 0x3F, 0xFF, 0x00])) =
     (Inl ErrUnexpectedEOF, NewDecoder (NewReader []))"
  using ReadPacket_five_bytes [of "[0x08, 0x01, 0x3F, 0xFF, 0x00]"] by simp

subsection \<open>The length field and the payload\<close>

text \<open>
  The length is computed in \<^verbatim>\<open>uint16\<close>. Below the largest field value the sum does
  not wrap, and the stored length is the field value plus one.
\<close>

lemma DataLen_unat:
  assumes "(raw::u16) \<noteq> 0xFFFF"
  shows "0 < raw + 1" and "unat (raw + 1) = unat raw + 1"
proof -
  have nz: "raw + 1 \<noteq> 0"
  proof
    assume "raw + 1 = 0"
    then have "raw = - 1" by (simp add: add_eq_0_iff2)
    then have "raw = 0xFFFF" by simp
    with assms show False by simp
  qed
  then show "0 < raw + 1" by (simp add: word_greater_zero_iff)
  from nz have "1 + raw \<noteq> 0" by (simp add: add.commute)
  then have "unat (1 + raw) = Suc (unat raw)" by (rule unatSuc)
  then show "unat (raw + 1) = unat raw + 1" by (simp add: add.commute)
qed

text \<open>
  For a length field below \<^verbatim>\<open>0xFFFF\<close>, a returned packet has the field value plus
  one as its length and exactly that many payload bytes, taken from the stream.
\<close>

lemma ReadPacket_below_max:
  assumes pend: "pending (dec_r d) = b0 # b1 # b2 # b3 # b4 # b5 # rest"
    and raw: "BigEndian_Uint16 [b4, b5] \<noteq> 0xFFFF"
    and rp: "ReadPacket d = (Inr pkt, d')"
  shows "unat (DataLen pkt) = unat (BigEndian_Uint16 [b4, b5]) + 1"
    and "Data pkt = take (unat (BigEndian_Uint16 [b4, b5]) + 1) rest"
    and "length (Data pkt) = unat (BigEndian_Uint16 [b4, b5]) + 1"
    and "pending (dec_r d') = drop (unat (BigEndian_Uint16 [b4, b5]) + 1) rest"
  using rp DataLen_unat [OF raw] unfolding ReadPacket_header [OF pend]
  by (auto simp: Let_def ReadFull_def split: if_splits)

text \<open>
  For a length field below \<^verbatim>\<open>0xFFFF\<close> and a source that ends before the payload is
  complete: with at least one payload byte present the result is
  \<^verbatim>\<open>io.ErrUnexpectedEOF\<close>, with none it is \<^verbatim>\<open>io.EOF\<close>.
\<close>

lemma ReadPacket_payload_short:
  assumes pend: "pending (dec_r d) = b0 # b1 # b2 # b3 # b4 # b5 # rest"
    and raw: "BigEndian_Uint16 [b4, b5] \<noteq> 0xFFFF"
    and short: "length rest \<le> unat (BigEndian_Uint16 [b4, b5])"
    and fin: "final (dec_r d) = EOF"
  shows "ReadPacket d = (Inl (if rest = [] then EOF else ErrUnexpectedEOF),
                         d\<lparr>dec_r := (dec_r d)\<lparr>pending := []\<rparr>\<rparr>)"
  using DataLen_unat [OF raw] short fin unfolding ReadPacket_header [OF pend]
  by (simp add: Let_def ReadFull_def)

text \<open>
  C10: every packet \<open>ReadPacket\<close> returns has as many data bytes as its stored
  16-bit \<open>DataLen\<close> says. When the length field of the header is \<^verbatim>\<open>0xFFFF\<close>,
  \<open>ReadPacket\<close> returns a packet whose \<open>DataLen\<close> is 0 and whose data is empty,
  and only the six header bytes are taken from the stream.
\<close>

theorem ReadPacket_Data_length:
  "(ReadPacket d = (Inr pkt, d') \<longrightarrow> length (Data pkt) = unat (DataLen pkt)) \<and>
   (pending (dec_r d) = b0 # b1 # b2 # b3 # 0xFF # 0xFF # rest \<longrightarrow>
      (\<exists>p. ReadPacket d = (Inr p, d\<lparr>dec_r := (dec_r d)\<lparr>pending := rest\<rparr>\<rparr>) \<and>
           DataLen p = 0 \<and> Data p = []))"
proof (intro conjI impI)
  assume rp: "ReadPacket d = (Inr pkt, d')"
  then obtain c0 c1 c2 c3 c4 c5 cs
    where pend: "pending (dec_r d) = c0 # c1 # c2 # c3 # c4 # c5 # cs"
    by (rule ReadPacket_Inr_pending)
  show "length (Data pkt) = unat (DataLen pkt)"
    using rp unfolding ReadPacket_header [OF pend]
    by (auto simp: Let_def ReadFull_def word_greater_zero_iff split: if_splits)
next
  assume pend: "pending (dec_r d) = b0 # b1 # b2 # b3 # 0xFF # 0xFF # rest"
  show "\<exists>p. ReadPacket d = (Inr p, d\<lparr>dec_r := (dec_r d)\<lparr>pending := rest\<rparr>\<rparr>) \<and>
           DataLen p = 0 \<and> Data p = []"
    unfolding ReadPacket_header [OF pend] by (simp add: Let_def)
qed

theorem ReadPacket_Data_length_witness:
  "pending (dec_r (NewDecoder (NewReader [0x08, 0x01, 0x3F, 0xFF, 0xFF, 0xFF, 0xDE, 0xAD, 0xBE]))) =
     0x08 # 0x01 # 0x3F # 0xFF # 0xFF # 0xFF # [0xDE, 0xAD, 0xBE] \<and>
   ReadPacket (NewDecoder (NewReader [0x08, 0x01, 0x3F, 0xFF, 0xFF, 0xFF, 0xDE, 0xAD, 0xBE])) =
     (Inr \<lparr>Version = 0, Type = 0, SecondaryHdr = True, APID = 1, SequenceFlags = 0,
           SequenceCount = 0x3FFF, DataLen = 0, Data = []\<rparr>,
      NewDecoder (NewReader [0xDE, 0xAD, 0xBE])) \<and>
   length (Data \<lparr>Version = 0, Type = 0, SecondaryHdr = True, APID = 1, SequenceFlags = 0,
                 SequenceCount = 0x3FFF, DataLen = 0, Data = []\<rparr>) =
   unat (DataLen \<lparr>Version = 0, Type = 0, SecondaryHdr = True, APID = 1, SequenceFlags = 0,
                 SequenceCount = 0x3FFF, DataLen = 0, Data = []\<rparr>) \<and>
   (\<exists>p. ReadPacket (NewDecoder (NewReader [0x08, 0x01, 0x3F, 0xFF, 0xFF, 0xFF, 0xDE, 0xAD, 0xBE])) =
          (Inr p, NewDecoder (NewReader [0xDE, 0xAD, 0xBE])) \<and>
        DataLen p = 0 \<and> Data p = [])"
proof -
  let ?d = "NewDecoder (NewReader [0x08, 0x01, 0x3F, 0xFF, 0xFF, 0xFF, 0xDE, 0xAD, 0xBE])"
  let ?p = "\<lparr>Version = 0, Type = 0, SecondaryHdr = True, APID = 1, SequenceFlags = 0,
           SequenceCount = 0x3FFF, DataLen = 0, Data = []\<rparr>"
  let ?d' = "NewDecoder (NewReader [0xDE, 0xAD, 0xBE])"
  have h1: "pending (dec_r ?d) = 0x08 # 0x01 # 0x3F # 0xFF # 0xFF # 0xFF # [0xDE, 0xAD, 0xBE]"
    by (simp add: NewDecoder_def NewReader_def)
  have h2: "ReadPacket ?d = (Inr ?p, ?d')"
    by (simp add: ReadPacket_def ReadFull_def NewDecoder_def NewReader_def Let_def)
  have upd: "?d\<lparr>dec_r := (dec_r ?d)\<lparr>pending := [0xDE, 0xAD, 0xBE]\<rparr>\<rparr> = ?d'"
    by (simp add: NewDecoder_def NewReader_def)
  from ReadPacket_Data_length [of ?d ?p ?d' "0x08" "0x01" "0x3F" "0xFF" "[0xDE, 0xAD, 0xBE]"]
  have "length (Data ?p) = unat (DataLen ?p)"
    and "\<exists>p. ReadPacket ?d = (Inr p, ?d') \<and> DataLen p = 0 \<and> Data p = []"
    using h1 h2 unfolding upd by blast+
  with h1 h2 show ?thesis
    by blast
qed

text \<open>
  C1 says that the decoded data length is the length field plus one in an integer wide
  enough to give 65536 for the field value \<^verbatim>\<open>0xFFFF\<close>, so that it always lies
  between 1 and 65536. The source adds one in \<^verbatim>\<open>uint16\<close>: for a header with length
  field \<^verbatim>\<open>0xFFFF\<close> followed by its 65536 payload bytes, the returned packet has
  \<open>DataLen = 0\<close>.
\<close>

theorem DataLen_wraps_at_0xFFFF:
  "unat (BigEndian_Uint16 [0xFF, 0xFF]) + 1 = 65536 \<and>
   ReadPacket (NewDecoder (NewReader ([0x08, 0x01, 0x3F, 0xFF, 0xFF, 0xFF] @ replicate 65536 0xAA))) =
     (Inr \<lparr>Version = 0, Type = 0, SecondaryHdr = True, APID = 1, SequenceFlags = 0,
           SequenceCount = 0x3FFF, DataLen = 0, Data = []\<rparr>,
      NewDecoder (NewReader (replicate 65536 0xAA)))"
  by (simp add: ReadPacket_def ReadFull_def NewDecoder_def NewReader_def Let_def)

text \<open>
  C2 says that a returned packet always has the length field plus one payload bytes
  and never an empty payload. For the well-formed packet with length field
  \<^verbatim>\<open>0xFFFF\<close> and 65536 payload bytes, \<open>ReadPacket\<close> takes the branch for a zero
  length: the returned packet has no data, and all 65536 payload bytes are still in the
  stream.
\<close>

theorem payload_skipped_at_0xFFFF:
  "well_formed_packet ([0, 0, 0, 0, 0xFF, 0xFF] @ replicate 65536 0x55) \<and>
   (\<exists>pkt. ReadPacket (NewDecoder (NewReader ([0, 0, 0, 0, 0xFF, 0xFF] @ replicate 65536 0x55))) =
      (Inr pkt, NewDecoder (NewReader (replicate 65536 0x55))) \<and> Data pkt = [])"
  by (simp add: well_formed_packet_def ReadPacket_def ReadFull_def NewDecoder_def NewReader_def Let_def)

text \<open>
  C3 says that a payload cut short after a complete header is always reported as an
  error other than end-of-stream. When the source ends right after the header, so that
  no payload byte is there, \<open>ReadPacket\<close> returns \<^verbatim>\<open>io.EOF\<close> itself, and
  \<open>ReadAllPackets\<close> on a complete packet followed by such a header returns the
  first packet and no error.
\<close>

theorem missing_payload_is_EOF:
  "ReadPacket (NewDecoder (NewReader [0x08, 0x01, 0x3F, 0xFF, 0x00, 0x02])) =
     (Inl EOF, NewDecoder (NewReader [])) \<and>
   ReadAllPackets (NewDecoder (NewReader (fixture_bytes @ [0x08, 0x01, 0x3F, 0xFF, 0x00, 0x02]))) =
     (([fixture_packet], None), NewDecoder (NewReader []))"
proof (rule conjI)
  show "ReadPacket (NewDecoder (NewReader [0x08, 0x01, 0x3F, 0xFF, 0x00, 0x02])) =
     (Inl EOF, NewDecoder (NewReader []))"
    by (simp add: ReadPacket_def ReadFull_def NewDecoder_def NewReader_def Let_def)
next
  show "ReadAllPackets (NewDecoder (NewReader (fixture_bytes @ [0x08, 0x01, 0x3F, 0xFF, 0x00, 0x02]))) =
     (([fixture_packet], None), NewDecoder (NewReader []))"
    by code_simp
qed

subsection \<open>ReadAllPackets\<close>

text \<open>After \<open>n\<close> successful calls the loop has appended their packets, in call order.\<close>

lemma ReadAllPackets_loop_after_n:
  "ReadPacket_n n d = (map Inr ps, d1) \<Longrightarrow>
   ReadAllPackets_loop acc d = ReadAllPackets_loop (acc @ ps) d1"
proof (induction n arbitrary: d ps acc)
  case 0
  then show ?case by simp
next
  case (Suc n)
  obtain res d' where rp: "ReadPacket d = (res, d')"
    by (cases "ReadPacket d")
  obtain ress d'' where rn: "ReadPacket_n n d' = (ress, d'')"
    by (cases "ReadPacket_n n d'")
  from Suc.prems rp rn have eq: "res # ress = map Inr ps" and d1: "d'' = d1"
    by simp_all
  then obtain p ps' where ps: "ps = p # ps'" and res: "res = Inr p" and ress: "ress = map Inr ps'"
    by (cases ps) auto
  have "ReadAllPackets_loop acc d = ReadAllPackets_loop (acc @ [p]) d'"
    by (subst ReadAllPackets_loop.simps) (simp add: rp res)
  also have "\<dots> = ReadAllPackets_loop ((acc @ [p]) @ ps') d1"
    using rn ress d1 by (intro Suc.IH) simp
  finally show ?case by (simp add: ps)
qed

text \<open>
  The other way the loop ends: after \<open>n\<close> packets the next call returns \<^verbatim>\<open>io.EOF\<close>
  or an error that wraps it, and \<open>ReadAllPackets\<close> returns the packets and a nil
  error.
\<close>

lemma ReadAllPackets_ends_at_EOF:
  assumes "ReadPacket_n n d = (map Inr ps, d1)"
    and "ReadPacket d1 = (Inl err, d2)"
    and "errors_Is_EOF err"
  shows "ReadAllPackets d = ((ps, None), d2)"
proof -
  have "ReadAllPackets d = ReadAllPackets_loop ps d1"
    using ReadAllPackets_loop_after_n [OF assms(1), of "[]"] by (simp add: ReadAllPackets_def)
  also have "\<dots> = ((ps, None), d2)"
    by (subst ReadAllPackets_loop.simps) (simp add: assms(2,3))
  finally show ?thesis .
qed

text \<open>
  C8 as stated, for every error other than \<^verbatim>\<open>io.EOF\<close>, does not hold: on a source that
  delivers the fixture packet and then fails with an error wrapping \<^verbatim>\<open>io.EOF\<close>,
  the second call of \<open>ReadPacket\<close> returns that error, which is not \<^verbatim>\<open>io.EOF\<close>, and
  \<open>ReadAllPackets\<close> returns the packet with a nil error.
\<close>

theorem ReadAllPackets_drops_wrapped_EOF:
  "ReadPacket_n 1 (NewDecoder \<lparr>pending = fixture_bytes, final = Wrapped 0 EOF\<rparr>) =
     ([Inr fixture_packet], NewDecoder \<lparr>pending = [], final = Wrapped 0 EOF\<rparr>) \<and>
   ReadPacket (NewDecoder \<lparr>pending = [], final = Wrapped 0 EOF\<rparr>) =
     (Inl (Wrapped 0 EOF), NewDecoder \<lparr>pending = [], final = Wrapped 0 EOF\<rparr>) \<and>
   Wrapped 0 EOF \<noteq> EOF \<and>
   ReadAllPackets (NewDecoder \<lparr>pending = fixture_bytes, final = Wrapped 0 EOF\<rparr>) =
     (([fixture_packet], None), NewDecoder \<lparr>pending = [], final = Wrapped 0 EOF\<rparr>)"
proof (intro conjI)
  show "ReadPacket_n 1 (NewDecoder \<lparr>pending = fixture_bytes, final = Wrapped 0 EOF\<rparr>) =
     ([Inr fixture_packet], NewDecoder \<lparr>pending = [], final = Wrapped 0 EOF\<rparr>)"
    by (simp add: ReadPacket_def ReadFull_def NewDecoder_def Let_def
        fixture_bytes_def fixture_packet_def)
next
  show "ReadPacket (NewDecoder \<lparr>pending = [], final = Wrapped 0 EOF\<rparr>) =
     (Inl (Wrapped 0 EOF), NewDecoder \<lparr>pending = [], final = Wrapped 0 EOF\<rparr>)"
    by (simp add: ReadPacket_def ReadFull_def NewDecoder_def)
next
  show "Wrapped 0 EOF \<noteq> EOF"
    by simp
next
  show "ReadAllPackets (NewDecoder \<lparr>pending = fixture_bytes, final = Wrapped 0 EOF\<rparr>) =
     (([fixture_packet], None), NewDecoder \<lparr>pending = [], final = Wrapped 0 EOF\<rparr>)"
    by code_simp
qed

text \<open>
  C8, amended: on every decoder and stream, if the first \<open>n\<close> calls of \<open>ReadPacket\<close>
  return the packets \<open>ps\<close> and the next call returns an error that neither is
  \<^verbatim>\<open>io.EOF\<close> nor wraps it (\<^verbatim>\<open>errors.Is(err, io.EOF)\<close> is false), then
  \<open>ReadAllPackets\<close> stops there and returns both \<open>ps\<close>, in stream order, and that
  error.
\<close>

theorem ReadAllPackets_stops_at_error:
  assumes "ReadPacket_n n d = (map Inr ps, d1)"
    and "ReadPacket d1 = (Inl err, d2)"
    and "\<not> errors_Is_EOF err"
  shows "ReadAllPackets d = ((ps, Some err), d2)"
proof -
  have "ReadAllPackets d = ReadAllPackets_loop ps d1"
    using ReadAllPackets_loop_after_n [OF assms(1), of "[]"] by (simp add: ReadAllPackets_def)
  also have "\<dots> = ((ps, Some err), d2)"
    by (subst ReadAllPackets_loop.simps) (simp add: assms(2,3))
  finally show ?thesis .
qed

theorem ReadAllPackets_stops_at_error_witness:
  "ReadPacket_n 1 (NewDecoder (NewReader (fixture_bytes @ [0x08, 0x01]))) =
     (map Inr [fixture_packet], NewDecoder (NewReader [0x08, 0x01])) \<and>
   ReadPacket (NewDecoder (NewReader [0x08, 0x01])) =
     (Inl ErrUnexpectedEOF, NewDecoder (NewReader [])) \<and>
   \<not> errors_Is_EOF ErrUnexpectedEOF \<and>
   ReadAllPackets (NewDecoder (NewReader (fixture_bytes @ [0x08, 0x01]))) =
     (([fixture_packet], Some ErrUnexpectedEOF), NewDecoder (NewReader []))"
proof -
  have h1: "ReadPacket_n 1 (NewDecoder (NewReader (fixture_bytes @ [0x08, 0x01]))) =
     (map Inr [fixture_packet], NewDecoder (NewReader [0x08, 0x01]))"
    by (simp add: ReadPacket_def ReadFull_def NewDecoder_def NewReader_def Let_def
        fixture_bytes_def fixture_packet_def)
  have h2: "ReadPacket (NewDecoder (NewReader [0x08, 0x01])) =
     (Inl ErrUnexpectedEOF, NewDecoder (NewReader []))"
    by (simp add: ReadPacket_def ReadFull_def NewDecoder_def NewReader_def)
  have h3: "\<not> errors_Is_EOF ErrUnexpectedEOF"
    by simp
  from ReadAllPackets_stops_at_error [OF h1 h2 h3] h1 h2 h3 show ?thesis
    by blast
qed

subsection \<open>Successive calls on a stream of packets\<close>

text \<open>
  A well-formed packet with a length field below \<^verbatim>\<open>0xFFFF\<close> at the head of the
  stream is decoded as it is decoded alone, its payload is the data, and the stream
  is left at the first byte after it.
\<close>

lemma ReadPacket_frame:
  assumes wf: "well_formed_packet f" and raw: "BigEndian_Uint16 [f ! 4, f ! 5] \<noteq> 0xFFFF"
  shows "\<exists>pkt. ReadPacket \<lparr>dec_r = \<lparr>pending = f @ rest, final = e\<rparr>\<rparr> =
                 (Inr pkt, \<lparr>dec_r = \<lparr>pending = rest, final = e\<rparr>\<rparr>) \<and>
               fst (ReadPacket (NewDecoder (NewReader f))) = Inr pkt \<and>
               Data pkt = drop 6 f"
proof -
  from wf have "6 \<le> length f" by (simp add: well_formed_packet_def)
  then obtain b0 b1 b2 b3 b4 b5 payload where f: "f = b0 # b1 # b2 # b3 # b4 # b5 # payload"
    by (auto simp: numeral_eq_Suc Suc_le_length_iff)
  have idx: "f ! 4 = b4" "f ! 5 = b5"
    by (simp_all add: f)
  from wf have len: "length payload = unat (BigEndian_Uint16 [b4, b5]) + 1"
    unfolding well_formed_packet_def idx by (simp add: f)
  note dl = DataLen_unat [OF raw [unfolded idx]]
  let ?d = "\<lparr>dec_r = \<lparr>pending = f @ rest, final = e\<rparr>\<rparr>"
  have p1: "pending (dec_r ?d) = b0 # b1 # b2 # b3 # b4 # b5 # (payload @ rest)"
    by (simp add: f)
  have p2: "pending (dec_r (NewDecoder (NewReader f))) = b0 # b1 # b2 # b3 # b4 # b5 # payload"
    by (simp add: f NewDecoder_def NewReader_def)
  show ?thesis
    unfolding ReadPacket_header [OF p1] ReadPacket_header [OF p2]
    using dl len by (simp add: Let_def ReadFull_def f)
qed

text \<open>Once the stream is used up, every further call returns \<^verbatim>\<open>io.EOF\<close>.\<close>

lemma ReadPacket_n_exhausted:
  "ReadPacket_n k (NewDecoder (NewReader [])) = (replicate k (Inl EOF), NewDecoder (NewReader []))"
proof (induction k)
  case 0
  then show ?case by simp
next
  case (Suc k)
  have "ReadPacket (NewDecoder (NewReader [])) = (Inl EOF, NewDecoder (NewReader []))"
    by (simp add: ReadPacket_short NewDecoder_def NewReader_def)
  with Suc show ?case by simp
qed

text \<open>
  A stream of well-formed packets, none with the length field \<^verbatim>\<open>0xFFFF\<close>:
  the calls return the packets in stream order, and every call after them returns
  \<^verbatim>\<open>io.EOF\<close>.
\<close>

lemma ReadPacket_n_stream:
  assumes "\<forall>f \<in> set fs. well_formed_packet f \<and> BigEndian_Uint16 [f ! 4, f ! 5] \<noteq> 0xFFFF"
  shows "ReadPacket_n (length fs + k) (NewDecoder (NewReader (concat fs))) =
           (map (\<lambda>f. fst (ReadPacket (NewDecoder (NewReader f)))) fs @ replicate k (Inl EOF),
            NewDecoder (NewReader []))"
  using assms
proof (induction fs)
  case Nil
  then show ?case by (simp add: ReadPacket_n_exhausted)
next
  case (Cons f fs)
  then have wf: "well_formed_packet f" and raw: "BigEndian_Uint16 [f ! 4, f ! 5] \<noteq> 0xFFFF"
    by simp_all
  from ReadPacket_frame [OF wf raw, of "concat fs" EOF]
  obtain pkt where
    step: "ReadPacket (NewDecoder (NewReader (f @ concat fs))) =
             (Inr pkt, NewDecoder (NewReader (concat fs)))"
    and single: "fst (ReadPacket (NewDecoder (NewReader f))) = Inr pkt"
    by (auto simp: NewDecoder_def NewReader_def)
  from Cons have "ReadPacket_n (length fs + k) (NewDecoder (NewReader (concat fs))) =
           (map (\<lambda>f. fst (ReadPacket (NewDecoder (NewReader f)))) fs @ replicate k (Inl EOF),
            NewDecoder (NewReader []))"
    by simp
  with step single show ?case by simp
qed

lemma replicate_7: "replicate 7 x = [x, x, x, x, x, x, x]"
  by (simp add: numeral_eq_Suc)

lemma replicate_65536: "replicate 65536 x = x # x # x # x # x # x # x # replicate 65529 x"
proof -
  have "replicate (7 + 65529) x = replicate 7 x @ replicate 65529 x"
    by (rule replicate_add)
  then show ?thesis unfolding replicate_7 by simp
qed

text \<open>
  C9 says that on a stream of \<open>N\<close> well-formed packets the first \<open>N\<close> calls of
  \<open>ReadPacket\<close> return those packets and call \<open>N + 1\<close> returns end-of-stream. For the
  stream that holds the one well-formed packet with length field \<^verbatim>\<open>0xFFFF\<close> and
  65536 zero payload bytes, the first call returns a packet without data, and the
  second call returns another packet, decoded from the payload bytes, where
  end-of-stream is due.
\<close>

theorem max_length_packet_misframed:
  "well_formed_packet ([0, 0, 0, 0, 0xFF, 0xFF] @ replicate 65536 0) \<and>
   ReadPacket_n 2 (NewDecoder (NewReader ([0, 0, 0, 0, 0xFF, 0xFF] @ replicate 65536 0))) =
     ([Inr \<lparr>Version = 0, Type = 0, SecondaryHdr = False, APID = 0, SequenceFlags = 0,
            SequenceCount = 0, DataLen = 0, Data = []\<rparr>,
       Inr \<lparr>Version = 0, Type = 0, SecondaryHdr = False, APID = 0, SequenceFlags = 0,
            SequenceCount = 0, DataLen = 1, Data = [0]\<rparr>],
      NewDecoder (NewReader (replicate 65529 0)))"
proof (rule conjI)
  show "well_formed_packet ([0, 0, 0, 0, 0xFF, 0xFF] @ replicate 65536 0)"
    by (simp add: well_formed_packet_def)
next
  have c1: "ReadPacket (NewDecoder (NewReader (0 # 0 # 0 # 0 # 0xFF # 0xFF # replicate 65536 0))) =
    (Inr \<lparr>Version = 0, Type = 0, SecondaryHdr = False, APID = 0, SequenceFlags = 0,
            SequenceCount = 0, DataLen = 0, Data = []\<rparr>, NewDecoder (NewReader (replicate 65536 0)))"
    by (simp add: ReadPacket_def ReadFull_def NewDecoder_def NewReader_def Let_def)
  have c2: "ReadPacket (NewDecoder (NewReader (replicate 65536 0))) =
    (Inr \<lparr>Version = 0, Type = 0, SecondaryHdr = False, APID = 0, SequenceFlags = 0,
            SequenceCount = 0, DataLen = 1, Data = [0]\<rparr>, NewDecoder (NewReader (replicate 65529 0)))"
    unfolding replicate_65536 [of "0::u8"]
    by (simp add: ReadPacket_def ReadFull_def NewDecoder_def NewReader_def Let_def)
  show "ReadPacket_n 2 (NewDecoder (NewReader ([0, 0, 0, 0, 0xFF, 0xFF] @ replicate 65536 0))) =
     ([Inr \<lparr>Version = 0, Type = 0, SecondaryHdr = False, APID = 0, SequenceFlags = 0,
            SequenceCount = 0, DataLen = 0, Data = []\<rparr>,
       Inr \<lparr>Version = 0, Type = 0, SecondaryHdr = False, APID = 0, SequenceFlags = 0,
            SequenceCount = 0, DataLen = 1, Data = [0]\<rparr>],
      NewDecoder (NewReader (replicate 65529 0)))"
    by (simp add: numeral_2_eq_2 c1 c2)
qed

end
